theory Spec2Isabelle
  imports Main "HOL-Library.Sublist" "HOL-Library.Multiset"
begin

section \<open>The keyring command of Consul: data model\<close>

text \<open>
  The theory embeds \<^verbatim>\<open>command/keyring/keyring.go\<close>: the method \<^verbatim>\<open>Run\<close> of the
  command and the pure formatting functions \<^verbatim>\<open>formatResponse\<close>, \<^verbatim>\<open>poolName\<close>,
  \<^verbatim>\<open>formatMessages\<close> and \<^verbatim>\<open>formatKeys\<close>. Go strings are byte strings and are
  modelled as \<^typ>\<open>string\<close>; Go's \<^verbatim>\<open>int\<close> is modelled as \<^typ>\<open>int\<close> (the program
  only compares and prints these numbers, it never computes with them).
\<close>

definition nl :: char where
  "nl = CHR 0x0A"

text \<open>
  A Go map has no iteration order: \<^verbatim>\<open>for k, v := range m\<close> visits the entries in an
  order that the language leaves unspecified and that may change from one loop to the
  next. A map value is therefore represented by the list of its entries in the order in
  which the \<^verbatim>\<open>range\<close> loop at hand visits them; the keys of such a list are distinct,
  and two lists stand for the same map exactly when one is a permutation of the other.
\<close>

type_synonym ('k, 'v) gomap = "('k \<times> 'v) list"

definition same_gomap :: "('k, 'v) gomap \<Rightarrow> ('k, 'v) gomap \<Rightarrow> bool" where
  "same_gomap m m' = (mset m = mset m')"

text \<open>The fields of \<^verbatim>\<open>consulapi.KeyringResponse\<close> that the command reads.\<close>

record KeyringResponse =
  WAN :: bool
  Datacenter :: string
  Segment :: string
  Messages :: "(string, string) gomap"
  Keys :: "(string, int) gomap"
  PrimaryKeys :: "(string, int) gomap"
  NumNodes :: int

definition same_response :: "KeyringResponse \<Rightarrow> KeyringResponse \<Rightarrow> bool" where
  "same_response r r' =
     (WAN r = WAN r' \<and> Datacenter r = Datacenter r' \<and> Segment r = Segment r' \<and>
      same_gomap (Messages r) (Messages r') \<and> same_gomap (Keys r) (Keys r') \<and>
      same_gomap (PrimaryKeys r) (PrimaryKeys r') \<and> NumNodes r = NumNodes r')"

section \<open>Library functions used by the formatter\<close>

text \<open>\<^verbatim>\<open>%d\<close> of \<^verbatim>\<open>fmt.Sprintf\<close>: the decimal digits, with a minus sign when negative.\<close>

definition digit :: "nat \<Rightarrow> char" where
  "digit d = ''0123456789'' ! d"

fun digits :: "nat \<Rightarrow> string" where
  "digits n = (if n < 10 then [digit n] else digits (n div 10) @ [digit (n mod 10)])"

declare digits.simps [simp del]

definition fmt_d :: "int \<Rightarrow> string" where
  "fmt_d i = (if i < 0 then CHR ''-'' # digits (nat (- i)) else digits (nat i))"

text \<open>\<^verbatim>\<open>strings.Join(elems, sep)\<close>.\<close>

fun Join :: "string list \<Rightarrow> string \<Rightarrow> string" where
  "Join [] sep = []"
| "Join [a] sep = a"
| "Join (a # b # rest) sep = a @ sep @ Join (b # rest) sep"

text \<open>
  \<^verbatim>\<open>strings.Replace(s, old, new, -1)\<close>: every non-overlapping instance of \<^verbatim>\<open>old\<close>,
  found from left to right, is replaced by \<^verbatim>\<open>new\<close>; the text just replaced is not
  scanned again. (With an empty \<^verbatim>\<open>old\<close> Go inserts \<^verbatim>\<open>new\<close> before every UTF-8 sequence
  and at the end, which is before every byte of an ASCII string; the command only calls
  it with two newlines for \<^verbatim>\<open>old\<close>, and nothing below uses that branch.)
\<close>

function Replace :: "string \<Rightarrow> string \<Rightarrow> string \<Rightarrow> string" where
  "Replace s old new =
     (if old = [] then new @ concat (map (\<lambda>c. c # new) s)
      else if s = [] then []
      else if prefix old s then new @ Replace (drop (length old) s) old new
      else hd s # Replace (tl s) old new)"
  by pat_completeness auto
termination
  by (relation "measure (\<lambda>(s, old, new). length s)") auto

declare Replace.simps [simp del]

section \<open>The formatter\<close>

definition poolName :: "string \<Rightarrow> bool \<Rightarrow> string \<Rightarrow> string" where
  "poolName dc wan segment =
     (let pool = dc @ '' (LAN)'';
          pool = (if wan then ''WAN'' else pool);
          segment = (if segment \<noteq> [] then '' ['' @ segment @ '']'' else segment)
      in pool @ segment)"

text \<open>
  \<^verbatim>\<open>formatMessages\<close> and \<^verbatim>\<open>formatKeys\<close> append one line per entry that their
  \<^verbatim>\<open>range\<close> loop visits and join the lines with newlines; \<open>message_line\<close> and
  \<open>key_line\<close> are the \<^verbatim>\<open>fmt.Sprintf\<close> of lines 199 and 207.
\<close>

definition message_line :: "string \<times> string \<Rightarrow> string" where
  "message_line = (\<lambda>(from, msg). ''  ===> '' @ from @ '': '' @ msg)"

definition formatMessages :: "(string, string) gomap \<Rightarrow> string" where
  "formatMessages messages = Join (map message_line messages) [nl]"

definition key_line :: "int \<Rightarrow> string \<times> int \<Rightarrow> string" where
  "key_line tot = (\<lambda>(key, num). ''  '' @ key @ '' ['' @ fmt_d num @ ''/'' @ fmt_d tot @ '']'')"

definition formatKeys :: "(string, int) gomap \<Rightarrow> int \<Rightarrow> string" where
  "formatKeys keys tot = Join (map (key_line tot) keys) [nl]"

definition formatResponse :: "KeyringResponse \<Rightarrow> (string, int) gomap \<Rightarrow> string" where
  "formatResponse response keys =
     (let result =
        [[],
         poolName (Datacenter response) (WAN response) (Segment response) @ '':'',
         formatMessages (Messages response),
         formatKeys keys (NumNodes response)]
      in Replace (Join result [nl]) [nl, nl] [nl])"

section \<open>The command\<close>

text \<open>The flag values of the struct \<^verbatim>\<open>cmd\<close>, as \<^verbatim>\<open>c.flags.Parse\<close> leaves them.\<close>

record cmd =
  installKey :: string
  useKey :: string
  removeKey :: string
  listKeys :: bool
  listPrimaryKeys :: bool
  relay :: int
  local :: bool

text \<open>
  Go errors. The two validation conditions are named as the specification names them;
  every other error (flag parsing, client construction, a failed request) comes from a
  collaborator and carries its text.
\<close>

datatype error = InvalidRelayFactor | InvalidScope | External string

record QueryOptions =
  RelayFactor :: int
  LocalOnly :: bool

record WriteOptions =
  W_RelayFactor :: int

text \<open>The verbs of \<^verbatim>\<open>client.Operator()\<close> that the command calls.\<close>

record client =
  KeyringList :: "QueryOptions \<Rightarrow> error + KeyringResponse list"
  KeyringInstall :: "string \<Rightarrow> WriteOptions \<Rightarrow> error option"
  KeyringUse :: "string \<Rightarrow> WriteOptions \<Rightarrow> error option"
  KeyringRemove :: "string \<Rightarrow> WriteOptions \<Rightarrow> error option"

text \<open>
  The collaborators of one invocation: the flag parser, the usage text returned by
  \<^verbatim>\<open>c.Help()\<close>, the text of an error (\<^verbatim>\<open>%s\<close> applied to it) and the result of
  \<^verbatim>\<open>c.http.APIClient()\<close>.
\<close>

record env =
  flags_Parse :: "string list \<Rightarrow> error + cmd"
  Help :: string
  Error_text :: "error \<Rightarrow> string"
  APIClient :: "error + client"

text \<open>
  What an invocation does is recorded next to its exit code: the calls on \<^verbatim>\<open>c.UI\<close>
  (the \<^verbatim>\<open>PrefixedUi\<close> of line 70, which writes \<^verbatim>\<open>==> \<close> before an info text and
  leaves the other texts as they are), the calls on the client side (its construction
  and the verbs), and the \<^verbatim>\<open>return\<close> statement of \<^verbatim>\<open>Run\<close> that ended it, named
  after the check or the branch it belongs to.
\<close>

datatype ui_call = UI_Info string | UI_Error string | UI_Output string

datatype api_call =
    Call_APIClient
  | Call_KeyringList QueryOptions
  | Call_KeyringInstall string WriteOptions
  | Call_KeyringUse string WriteOptions
  | Call_KeyringRemove string WriteOptions

datatype return_site =
    Ret_Parse | Ret_SingleAction | Ret_NoAction | Ret_RelayFactor | Ret_LocalOnly
  | Ret_APIClient
  | Ret_ListError | Ret_List
  | Ret_ListPrimaryError | Ret_ListPrimary
  | Ret_InstallError | Ret_Install
  | Ret_UseError | Ret_Use
  | Ret_RemoveError | Ret_Remove
  | Ret_FallThrough

record outcome =
  exit_code :: int
  ui :: "ui_call list"
  calls :: "api_call list"
  site :: return_site

text \<open>
  Modelled from the spec: \<^verbatim>\<open>agent.ParseRelayFactor\<close> is called by \<^verbatim>\<open>Run\<close> and is not
  among the sources. The Relay Policy returns the validated factor, or fails with
  \<open>InvalidRelayFactor\<close> when the value is negative or exceeds the maximum 5.
\<close>

definition ParseRelayFactor :: "int \<Rightarrow> error + int" where
  "ParseRelayFactor n = (if n < 0 \<or> 5 < n then Inl InvalidRelayFactor else Inr n)"

text \<open>
  Modelled from the spec: \<^verbatim>\<open>agent.ValidateLocalOnly\<close> is called by \<^verbatim>\<open>Run\<close> and is not
  among the sources. The Scope Validator fails with \<open>InvalidScope\<close> if local-only is set
  and the command is not a list query; the second argument says whether it is one.
\<close>

definition ValidateLocalOnly :: "bool \<Rightarrow> bool \<Rightarrow> error option" where
  "ValidateLocalOnly loc list = (if loc \<and> \<not> list then Some InvalidScope else None)"

text \<open>
  The loop of lines 79 to 85 over the install, use and remove keys: \<open>None\<close> is the
  early return with "Only a single action is allowed", \<open>Some found\<close> the value of
  \<^verbatim>\<open>found\<close> after the loop.
\<close>

fun single_action :: "bool \<Rightarrow> string list \<Rightarrow> bool option" where
  "single_action found [] = Some found"
| "single_action found (arg # rest) =
     (if found \<and> length arg > 0 then None
      else single_action (found \<or> length arg > 0) rest)"

text \<open>Lines 114 to 172: the five branches, entered with a client.\<close>

definition dispatch :: "env \<Rightarrow> cmd \<Rightarrow> int \<Rightarrow> client \<Rightarrow> outcome" where
  "dispatch e c relayFactor cl =
     (if listKeys c then
        (let q = \<lparr>RelayFactor = relayFactor, LocalOnly = local c\<rparr> in
         case KeyringList cl q of
           Inl err \<Rightarrow>
             \<lparr>exit_code = 1,
              ui = [UI_Info ''Gathering installed encryption keys...'',
                    UI_Error (''error: '' @ Error_text e err)],
              calls = [Call_APIClient, Call_KeyringList q], site = Ret_ListError\<rparr>
         | Inr responses \<Rightarrow>
             \<lparr>exit_code = 0,
              ui = UI_Info ''Gathering installed encryption keys...'' #
                   map (\<lambda>response. UI_Output (formatResponse response (Keys response))) responses,
              calls = [Call_APIClient, Call_KeyringList q], site = Ret_List\<rparr>)
      else if listPrimaryKeys c then
        (let q = \<lparr>RelayFactor = relayFactor, LocalOnly = local c\<rparr> in
         case KeyringList cl q of
           Inl err \<Rightarrow>
             \<lparr>exit_code = 1,
              ui = [UI_Info ''Gathering installed primary encryption keys...'',
                    UI_Error (''error: '' @ Error_text e err)],
              calls = [Call_APIClient, Call_KeyringList q], site = Ret_ListPrimaryError\<rparr>
         | Inr responses \<Rightarrow>
             \<lparr>exit_code = 0,
              ui = UI_Info ''Gathering installed primary encryption keys...'' #
                   map (\<lambda>response. UI_Output (formatResponse response (PrimaryKeys response)))
                     responses,
              calls = [Call_APIClient, Call_KeyringList q], site = Ret_ListPrimary\<rparr>)
      else
        (let opts = \<lparr>W_RelayFactor = relayFactor\<rparr> in
         if installKey c \<noteq> [] then
           (case KeyringInstall cl (installKey c) opts of
              Some err \<Rightarrow>
                \<lparr>exit_code = 1,
                 ui = [UI_Info ''Installing new gossip encryption key...'',
                       UI_Error (''error: '' @ Error_text e err)],
                 calls = [Call_APIClient, Call_KeyringInstall (installKey c) opts],
                 site = Ret_InstallError\<rparr>
            | None \<Rightarrow>
                \<lparr>exit_code = 0,
                 ui = [UI_Info ''Installing new gossip encryption key...''],
                 calls = [Call_APIClient, Call_KeyringInstall (installKey c) opts],
                 site = Ret_Install\<rparr>)
         else if useKey c \<noteq> [] then
           (case KeyringUse cl (useKey c) opts of
              Some err \<Rightarrow>
                \<lparr>exit_code = 1,
                 ui = [UI_Info ''Changing primary gossip encryption key...'',
                       UI_Error (''error: '' @ Error_text e err)],
                 calls = [Call_APIClient, Call_KeyringUse (useKey c) opts],
                 site = Ret_UseError\<rparr>
            | None \<Rightarrow>
                \<lparr>exit_code = 0,
                 ui = [UI_Info ''Changing primary gossip encryption key...''],
                 calls = [Call_APIClient, Call_KeyringUse (useKey c) opts],
                 site = Ret_Use\<rparr>)
         else if removeKey c \<noteq> [] then
           (case KeyringRemove cl (removeKey c) opts of
              Some err \<Rightarrow>
                \<lparr>exit_code = 1,
                 ui = [UI_Info ''Removing gossip encryption key...'',
                       UI_Error (''error: '' @ Error_text e err)],
                 calls = [Call_APIClient, Call_KeyringRemove (removeKey c) opts],
                 site = Ret_RemoveError\<rparr>
            | None \<Rightarrow>
                \<lparr>exit_code = 0,
                 ui = [UI_Info ''Removing gossip encryption key...''],
                 calls = [Call_APIClient, Call_KeyringRemove (removeKey c) opts],
                 site = Ret_Remove\<rparr>)
         else
           \<lparr>exit_code = 0, ui = [], calls = [Call_APIClient], site = Ret_FallThrough\<rparr>))"

text \<open>Lines 66 to 112 of \<^verbatim>\<open>Run\<close>, which end in the five branches.\<close>

definition Run :: "env \<Rightarrow> string list \<Rightarrow> outcome" where
  "Run e args =
     (case flags_Parse e args of
        Inl err \<Rightarrow> \<lparr>exit_code = 1, ui = [], calls = [], site = Ret_Parse\<rparr>
      | Inr c \<Rightarrow>
        (case single_action (listKeys c \<or> listPrimaryKeys c)
                [installKey c, useKey c, removeKey c] of
           None \<Rightarrow>
             \<lparr>exit_code = 1, ui = [UI_Error ''Only a single action is allowed''],
              calls = [], site = Ret_SingleAction\<rparr>
         | Some found \<Rightarrow>
             if \<not> found then
               \<lparr>exit_code = 1, ui = [UI_Error (Help e)], calls = [], site = Ret_NoAction\<rparr>
             else
               (case ParseRelayFactor (relay c) of
                  Inl err \<Rightarrow>
                    \<lparr>exit_code = 1,
                     ui = [UI_Error (''Error parsing relay factor: '' @ Error_text e err)],
                     calls = [], site = Ret_RelayFactor\<rparr>
                | Inr relayFactor \<Rightarrow>
                    (case ValidateLocalOnly (local c) (listKeys c) of
                       Some err \<Rightarrow>
                         \<lparr>exit_code = 1,
                          ui = [UI_Error (''Error validating local-only: '' @ Error_text e err)],
                          calls = [], site = Ret_LocalOnly\<rparr>
                     | None \<Rightarrow>
                         (case APIClient e of
                            Inl err \<Rightarrow>
                              \<lparr>exit_code = 1,
                               ui = [UI_Error (''Error connecting to Consul agent: '' @
                                               Error_text e err)],
                               calls = [Call_APIClient], site = Ret_APIClient\<rparr>
                          | Inr cl \<Rightarrow> dispatch e c relayFactor cl)))))"

section \<open>Notions used to state the properties\<close>

text \<open>A block of lines, each preceded by a newline.\<close>

definition block :: "string list \<Rightarrow> string" where
  "block ls = concat (map (\<lambda>l. nl # l) ls)"

text \<open>A line of a block: not empty, and without a newline of its own.\<close>

definition plain_line :: "string \<Rightarrow> bool" where
  "plain_line l = (l \<noteq> [] \<and> nl \<notin> set l)"

text \<open>
  A response none of whose strings (datacenter, segment, node names, messages, keys)
  contains a newline.
\<close>

definition plain_response :: "KeyringResponse \<Rightarrow> (string, int) gomap \<Rightarrow> bool" where
  "plain_response r keys =
     (nl \<notin> set (Datacenter r) \<and> nl \<notin> set (Segment r) \<and>
      list_all (\<lambda>(from, msg). nl \<notin> set from \<and> nl \<notin> set msg) (Messages r) \<and>
      list_all (\<lambda>(key, num). nl \<notin> set key) keys)"

text \<open>A text has a blank line inside when two newlines are adjacent.\<close>

fun blank_line :: "string \<Rightarrow> bool" where
  "blank_line (a # b # t) = ((a = nl \<and> b = nl) \<or> blank_line (b # t))"
| "blank_line t = False"

text \<open>The lines of a text: the pieces between its newlines.\<close>

fun split_lines :: "string \<Rightarrow> string list" where
  "split_lines [] = [[]]"
| "split_lines (c # s) =
     (if c = nl then [] # split_lines s
      else (case split_lines s of [] \<Rightarrow> [[c]] | l # ls \<Rightarrow> (c # l) # ls))"

text \<open>
  The block layout in the words of the specification (section 4.6), for comparison with
  \<open>formatResponse\<close>: a header line naming the pool, \<open><site> (LAN)\<close> or \<open>WAN\<close> with an
  optional \<open>[<segment>]\<close> suffix, then one indented line \<open>from: message\<close> per message,
  then one indented line \<open><key> [<count>/<total>]\<close> per key.
\<close>

definition spec_block :: "KeyringResponse \<Rightarrow> (string, int) gomap \<Rightarrow> string" where
  "spec_block r keys =
     Join (((if WAN r then ''WAN'' else Datacenter r @ '' (LAN)'') @
            (if Segment r \<noteq> [] then '' ['' @ Segment r @ '']'' else [])) #
           map (\<lambda>(from, msg). ''  '' @ from @ '': '' @ msg) (Messages r) @
           map (\<lambda>(key, num). ''  '' @ key @ '' ['' @ fmt_d num @ ''/'' @
                  fmt_d (NumNodes r) @ '']'') keys) [nl]"

section \<open>Concrete invocations\<close>

definition no_flags :: cmd where
  "no_flags = \<lparr>installKey = [], useKey = [], removeKey = [], listKeys = False,
     listPrimaryKeys = False, relay = 0, local = False\<rparr>"

text \<open>What the flag parser returns on the command lines used below.\<close>

definition example_Parse :: "string list \<Rightarrow> error + cmd" where
  "example_Parse args =
     (if args = [''-list''] then Inr (no_flags\<lparr>listKeys := True\<rparr>)
      else if args = [''-list-primary''] then Inr (no_flags\<lparr>listPrimaryKeys := True\<rparr>)
      else if args = [''-list-primary'', ''-local-only'']
        then Inr (no_flags\<lparr>listPrimaryKeys := True, local := True\<rparr>)
      else if args = [''-list'', ''-list-primary'']
        then Inr (no_flags\<lparr>listKeys := True, listPrimaryKeys := True\<rparr>)
      else if args = [''-list'', ''-relay-factor=6'']
        then Inr (no_flags\<lparr>listKeys := True, relay := 6\<rparr>)
      else if args = [''-install=k1'', ''-local-only'']
        then Inr (no_flags\<lparr>installKey := ''k1'', local := True\<rparr>)
      else Inl (External ''flag provided but not defined''))"

definition example_Error_text :: "error \<Rightarrow> string" where
  "example_Error_text err =
     (case err of
        InvalidRelayFactor \<Rightarrow> ''invalid relay factor''
      | InvalidScope \<Rightarrow> ''invalid scope''
      | External s \<Rightarrow> s)"

text \<open>A local pool in which one node reports an error.\<close>

definition pool_dc1 :: KeyringResponse where
  "pool_dc1 = \<lparr>WAN = False, Datacenter = ''dc1'', Segment = [],
     Messages = [(''node1'', ''cannot remove primary key'')],
     Keys = [(''abc123'', 3)], PrimaryKeys = [(''abc123'', 2)], NumNodes = 3\<rparr>"

text \<open>The wide-area pool with two messages, visited in the two possible orders.\<close>

definition pool_ab :: KeyringResponse where
  "pool_ab = \<lparr>WAN = True, Datacenter = ''dc1'', Segment = [],
     Messages = [(''node1'', ''a''), (''node2'', ''b'')],
     Keys = [], PrimaryKeys = [], NumNodes = 2\<rparr>"

definition pool_ba :: KeyringResponse where
  "pool_ba = pool_ab\<lparr>Messages := [(''node2'', ''b''), (''node1'', ''a'')]\<rparr>"

text \<open>A pool whose only message contains five consecutive newlines.\<close>

definition pool_gap :: KeyringResponse where
  "pool_gap = \<lparr>WAN = False, Datacenter = ''dc1'', Segment = [],
     Messages = [(''node1'', [CHR ''a'', nl, nl, nl, nl, nl, CHR ''b''])],
     Keys = [], PrimaryKeys = [], NumNodes = 1\<rparr>"

definition example_client :: client where
  "example_client = \<lparr>KeyringList = (\<lambda>q. Inr [pool_dc1]),
     KeyringInstall = (\<lambda>key opts. None), KeyringUse = (\<lambda>key opts. None),
     KeyringRemove = (\<lambda>key opts. None)\<rparr>"

definition example_env :: env where
  "example_env = \<lparr>flags_Parse = example_Parse, Help = ''Usage: consul keyring [options]'',
     Error_text = example_Error_text, APIClient = Inr example_client\<rparr>"

section \<open>Properties of the library functions\<close>

lemma digit_not_nl: "d < 10 \<Longrightarrow> digit d \<noteq> nl"
proof -
  assume "d < 10"
  then have "''0123456789'' ! d \<in> set ''0123456789''"
    by (intro nth_mem) simp
  then show ?thesis
    by (auto simp: digit_def nl_def)
qed

lemma digits_no_nl: "nl \<notin> set (digits n)"
proof (induction n rule: digits.induct)
  case (1 n)
  show ?case
  proof (cases "n < 10")
    case True
    then show ?thesis
      using digit_not_nl [of n] by (subst digits.simps) auto
  next
    case False
    with 1 show ?thesis
      using digit_not_nl [of "n mod 10"] by (subst digits.simps) auto
  qed
qed

lemma fmt_d_no_nl: "nl \<notin> set (fmt_d i)"
proof -
  have "nl \<noteq> CHR ''-''" by (simp add: nl_def)
  then show ?thesis by (simp add: fmt_d_def digits_no_nl)
qed

text \<open>How the replacement of two newlines by one scans a text.\<close>

lemma Replace_Nil: "Replace [] [nl, nl] [nl] = []"
  by (simp add: Replace.simps)

lemma Replace_nl_nl: "Replace (nl # nl # t) [nl, nl] [nl] = nl # Replace t [nl, nl] [nl]"
  by (subst Replace.simps) simp

lemma Replace_other: "c \<noteq> nl \<Longrightarrow> Replace (c # t) [nl, nl] [nl] = c # Replace t [nl, nl] [nl]"
  by (subst Replace.simps) simp

lemma Replace_nl_other:
  "c \<noteq> nl \<Longrightarrow> Replace (nl # c # t) [nl, nl] [nl] = nl # c # Replace t [nl, nl] [nl]"
  by (subst Replace.simps) (simp add: Replace_other)

lemma Replace_nl_end: "Replace [nl] [nl, nl] [nl] = [nl]"
  by (subst Replace.simps) (simp add: Replace_Nil)

lemma Replace_plain: "nl \<notin> set s \<Longrightarrow> Replace (s @ t) [nl, nl] [nl] = s @ Replace t [nl, nl] [nl]"
  by (induction s) (auto simp: Replace_other)

text \<open>One pass halves a run of newlines, rounding up; it collapses only runs of two.\<close>

lemma Replace_newlines:
  "Replace (replicate k nl) [nl, nl] [nl] = replicate ((k + 1) div 2) nl"
proof (induction k rule: induct_nat_012)
  case 0
  then show ?case by (simp add: Replace_Nil)
next
  case 1
  then show ?case by (simp add: Replace_nl_end)
next
  case (ge2 n)
  then show ?case by (simp add: Replace_nl_nl)
qed

text \<open>
  The pass treats each maximal run of newlines on its own: what stands before a run and
  what stands after it are replaced independently, and a run of \<open>k\<close> newlines becomes
  one of \<open>(k + 1) div 2\<close>.
\<close>

lemma Replace_split:
  "u = [] \<or> last u \<noteq> nl \<Longrightarrow>
   Replace (u @ t) [nl, nl] [nl] = Replace u [nl, nl] [nl] @ Replace t [nl, nl] [nl]"
proof (induction u rule: length_induct)
  case (1 u)
  show ?case
  proof (cases u)
    case Nil
    then show ?thesis by (simp add: Replace_Nil)
  next
    case u: (Cons c u')
    show ?thesis
    proof (cases "c = nl")
      case False
      from 1(2) u have "u' = [] \<or> last u' \<noteq> nl" by (auto split: if_splits)
      moreover from u have "length u' < length u" by simp
      ultimately have "Replace (u' @ t) [nl, nl] [nl] =
          Replace u' [nl, nl] [nl] @ Replace t [nl, nl] [nl]"
        using 1(1) by blast
      with False u show ?thesis by (simp add: Replace_other)
    next
      case True
      with 1(2) u obtain d u'' where u': "u' = d # u''"
        by (cases u') auto
      from 1(2) u u' have l: "u'' = [] \<or> last u'' \<noteq> nl" by (auto split: if_splits)
      moreover from u u' have "length u'' < length u" by simp
      ultimately have IH: "Replace (u'' @ t) [nl, nl] [nl] =
          Replace u'' [nl, nl] [nl] @ Replace t [nl, nl] [nl]"
        using 1(1) by blast
      show ?thesis
      proof (cases "d = nl")
        case dn: True
        with True u u' IH show ?thesis by (simp add: Replace_nl_nl)
      next
        case False
        with True u u' IH show ?thesis by (simp add: Replace_nl_other)
      qed
    qed
  qed
qed

lemma Replace_run:
  "v = [] \<or> hd v \<noteq> nl \<Longrightarrow>
   Replace (replicate k nl @ v) [nl, nl] [nl] =
     replicate ((k + 1) div 2) nl @ Replace v [nl, nl] [nl]"
proof (induction k rule: induct_nat_012)
  case 0
  then show ?case by simp
next
  case 1
  then show ?case
    by (cases v) (auto simp: Replace_nl_end Replace_Nil Replace_nl_other Replace_other)
next
  case (ge2 n)
  then show ?case by (simp add: Replace_nl_nl)
qed

lemma Replace_last:
  "u \<noteq> [] \<Longrightarrow> last u \<noteq> nl \<Longrightarrow>
   Replace u [nl, nl] [nl] \<noteq> [] \<and> last (Replace u [nl, nl] [nl]) = last u"
proof (induction u rule: length_induct)
  case (1 u)
  then obtain c u' where u: "u = c # u'" by (cases u) auto
  show ?case
  proof (cases "u' = []")
    case True
    with 1 u show ?thesis by (simp add: Replace_other Replace_Nil)
  next
    case u'n: False
    with 1(3) u have lu: "last u' \<noteq> nl" "last u = last u'" by auto
    show ?thesis
    proof (cases "c = nl")
      case False
      from u have "length u' < length u" by simp
      with 1(1) u'n lu have "Replace u' [nl, nl] [nl] \<noteq> [] \<and>
          last (Replace u' [nl, nl] [nl]) = last u'" by blast
      with False u lu show ?thesis by (simp add: Replace_other)
    next
      case True
      from u'n obtain d u'' where u': "u' = d # u''" by (cases u') auto
      show ?thesis
      proof (cases "d = nl")
        case dn: True
        with lu u' have n: "u'' \<noteq> []" "last u'' \<noteq> nl" "last u' = last u''"
          by (auto split: if_splits)
        moreover from u u' have "length u'' < length u" by simp
        ultimately have "Replace u'' [nl, nl] [nl] \<noteq> [] \<and>
          last (Replace u'' [nl, nl] [nl]) = last u''" using 1(1) by blast
        with True dn u u' lu n show ?thesis by (simp add: Replace_nl_nl)
      next
        case False
        from u have "length u' < length u" by simp
        with 1(1) lu u'n have "Replace u' [nl, nl] [nl] \<noteq> [] \<and>
          last (Replace u' [nl, nl] [nl]) = last u'" by blast
        moreover from True False u u'
        have "Replace u [nl, nl] [nl] = nl # Replace u' [nl, nl] [nl]"
          by (simp add: Replace_nl_other Replace_other)
        ultimately show ?thesis using lu by simp
      qed
    qed
  qed
qed

lemma Replace_hd:
  "v \<noteq> [] \<Longrightarrow> hd v \<noteq> nl \<Longrightarrow>
   Replace v [nl, nl] [nl] \<noteq> [] \<and> hd (Replace v [nl, nl] [nl]) = hd v"
  by (cases v) (auto simp: Replace_other)

lemma Replace_snoc_nl:
  "Replace (s @ [nl]) [nl, nl] [nl] \<noteq> [] \<and> last (Replace (s @ [nl]) [nl, nl] [nl]) = nl"
proof -
  obtain u k where s: "s = u @ replicate k nl" "u = [] \<or> last u \<noteq> nl"
  proof -
    define k where "k = length (takeWhile (\<lambda>c. c = nl) (rev s))"
    define u where "u = rev (dropWhile (\<lambda>c. c = nl) (rev s))"
    have "rev s = takeWhile (\<lambda>c. c = nl) (rev s) @ dropWhile (\<lambda>c. c = nl) (rev s)"
      by simp
    moreover have "takeWhile (\<lambda>c. c = nl) (rev s) = replicate k nl"
      unfolding k_def by (metis (full_types) replicate_length_same set_takeWhileD)
    ultimately have "rev s = replicate k nl @ rev u" by (simp add: u_def)
    then have "s = u @ replicate k nl"
      by (metis rev_append rev_replicate rev_rev_ident)
    moreover have "u = [] \<or> last u \<noteq> nl"
      unfolding u_def by (metis (mono_tags, lifting) hd_dropWhile last_rev rev_is_Nil_conv)
    ultimately show ?thesis by (rule that)
  qed
  have "s @ [nl] = u @ replicate (Suc k) nl"
    by (simp add: s replicate_append_same)
  then have "Replace (s @ [nl]) [nl, nl] [nl] =
      Replace u [nl, nl] [nl] @ replicate ((Suc k + 1) div 2) nl"
    using Replace_split [OF s(2), of "replicate (Suc k) nl"]
    by (simp only: Replace_newlines)
  moreover have "(Suc k + 1) div 2 = Suc (k div 2)" by simp
  ultimately show ?thesis by simp
qed

lemma block_Nil: "block [] = []"
  by (simp add: block_def)

lemma block_Cons: "block (l # ls) = nl # l @ block ls"
  by (simp add: block_def)

lemma block_append: "block (ks @ ls) = block ks @ block ls"
  by (simp add: block_def)

lemma Replace_block:
  "\<forall>l \<in> set ls. plain_line l \<Longrightarrow>
   Replace (block ls @ t) [nl, nl] [nl] = block ls @ Replace t [nl, nl] [nl]"
proof (induction ls)
  case Nil
  then show ?case by (simp add: block_Nil)
next
  case (Cons l ls)
  then obtain c l' where l: "l = c # l'" "c \<noteq> nl" "nl \<notin> set l'"
    by (cases l) (auto simp: plain_line_def)
  have "Replace (block (l # ls) @ t) [nl, nl] [nl] =
        Replace (nl # c # (l' @ block ls @ t)) [nl, nl] [nl]"
    by (simp add: block_Cons l)
  also have "\<dots> = nl # c # Replace (l' @ block ls @ t) [nl, nl] [nl]"
    by (rule Replace_nl_other) (rule l)
  also have "\<dots> = nl # c # l' @ Replace (block ls @ t) [nl, nl] [nl]"
    by (simp add: Replace_plain l)
  also have "\<dots> = block (l # ls) @ Replace t [nl, nl] [nl]"
    using Cons by (simp add: block_Cons l)
  finally show ?case .
qed

lemma Replace_nl_block:
  assumes "\<forall>l \<in> set ls. plain_line l" "ls \<noteq> []"
  shows "Replace (nl # block ls @ t) [nl, nl] [nl] = block ls @ Replace t [nl, nl] [nl]"
proof -
  from assms obtain l ls' where ls: "ls = l # ls'" by (cases ls) auto
  with assms have l: "nl \<notin> set l" and ls': "\<forall>l \<in> set ls'. plain_line l"
    by (auto simp: plain_line_def)
  have "Replace (nl # block ls @ t) [nl, nl] [nl] =
        Replace (nl # nl # (l @ block ls' @ t)) [nl, nl] [nl]"
    by (simp add: block_Cons ls)
  also have "\<dots> = nl # Replace (l @ block ls' @ t) [nl, nl] [nl]"
    by (rule Replace_nl_nl)
  also have "\<dots> = nl # l @ Replace (block ls' @ t) [nl, nl] [nl]"
    by (simp add: Replace_plain l)
  also have "\<dots> = block ls @ Replace t [nl, nl] [nl]"
    by (simp add: Replace_block ls' block_Cons ls)
  finally show ?thesis .
qed

lemma nl_Join: "ls \<noteq> [] \<Longrightarrow> nl # Join ls [nl] = block ls"
  by (induction ls "[nl]" rule: Join.induct) (auto simp: block_Cons block_Nil)

lemma blank_line_sublist: "blank_line s = sublist [nl, nl] s"
  by (induction s rule: blank_line.induct) (auto simp: sublist_Cons_right)

lemma blank_line_plain: "nl \<notin> set l \<Longrightarrow> blank_line (l @ t) = blank_line t"
proof (induction l)
  case Nil
  then show ?case by simp
next
  case (Cons c l)
  then show ?case by (cases "l @ t") auto
qed

lemma no_blank_line_block:
  assumes "\<forall>l \<in> set ls. plain_line l" "t = [] \<or> t = [nl]"
  shows "\<not> blank_line (block ls @ t)"
  using assms
proof (induction ls)
  case Nil
  then show ?case by (auto simp: block_Nil)
next
  case (Cons l ls)
  then obtain c l' where l: "l = c # l'" "c \<noteq> nl" "nl \<notin> set l'"
    by (cases l) (auto simp: plain_line_def)
  have "blank_line (block (l # ls) @ t) = blank_line ((c # l') @ block ls @ t)"
    by (simp add: block_Cons l)
  also have "\<dots> = blank_line (block ls @ t)"
    by (rule blank_line_plain) (use l in auto)
  finally show ?case using Cons by simp
qed

lemma split_lines_plain: "nl \<notin> set l \<Longrightarrow> split_lines (l @ nl # t) = l # split_lines t"
  by (induction l) auto

lemma split_lines_plain_end: "nl \<notin> set l \<Longrightarrow> split_lines l = [l]"
  by (induction l) auto

lemma split_lines_block:
  assumes "\<forall>l \<in> set ls. plain_line l" "nl \<notin> set l"
  shows "split_lines (l @ block ls) = l # ls"
    and "split_lines (l @ block ls @ [nl]) = l # ls @ [[]]"
  using assms
proof (induction ls arbitrary: l)
  case Nil
  {
    case 1
    then show ?case by (simp add: block_Nil split_lines_plain_end)
  next
    case 2
    then show ?case using split_lines_plain [of l "[]"] by (simp add: block_Nil)
  }
next
  case (Cons k ls)
  {
    case 1
    then have "nl \<notin> set k" "\<forall>l \<in> set ls. plain_line l"
      by (auto simp: plain_line_def)
    with 1 Cons.IH(1) [of k] show ?case
      by (simp add: block_Cons split_lines_plain)
  next
    case 2
    then have "nl \<notin> set k" "\<forall>l \<in> set ls. plain_line l"
      by (auto simp: plain_line_def)
    with 2 Cons.IH(2) [of k] show ?case
      by (simp add: block_Cons split_lines_plain)
  }
qed

section \<open>The layout of a formatted block\<close>

lemma poolName_plain:
  "nl \<notin> set dc \<Longrightarrow> nl \<notin> set segment \<Longrightarrow> plain_line (poolName dc wan segment @ '':'')"
  by (simp add: plain_line_def poolName_def Let_def nl_def)

lemma message_line_plain:
  "nl \<notin> set from \<Longrightarrow> nl \<notin> set msg \<Longrightarrow> plain_line (message_line (from, msg))"
  by (simp add: plain_line_def message_line_def nl_def)

lemma key_line_plain: "nl \<notin> set key \<Longrightarrow> plain_line (key_line tot (key, num))"
  using fmt_d_no_nl [of num] fmt_d_no_nl [of tot]
  by (simp add: plain_line_def key_line_def nl_def)

lemma plain_lines:
  assumes "plain_response r keys"
  shows "\<forall>l \<in> set ((poolName (Datacenter r) (WAN r) (Segment r) @ '':'') #
           map message_line (Messages r) @ map (key_line (NumNodes r)) keys). plain_line l"
  using assms
  by (auto simp: plain_response_def list_all_iff poolName_plain message_line_plain key_line_plain)

text \<open>
  With strings free of newlines, the replacement only removes the blank line that an
  empty section leaves: the block is the header, the message lines and the key lines,
  each preceded by a newline, and a final newline when there is no key.
\<close>

lemma formatResponse_layout:
  assumes "plain_response r keys"
  shows "formatResponse r keys =
           block ((poolName (Datacenter r) (WAN r) (Segment r) @ '':'') #
                  map message_line (Messages r) @ map (key_line (NumNodes r)) keys) @
           (if keys = [] then [nl] else [])"
proof -
  define P where "P = poolName (Datacenter r) (WAN r) (Segment r) @ '':''"
  define ml where "ml = map message_line (Messages r)"
  define kl where "kl = map (key_line (NumNodes r)) keys"
  have pl: "\<forall>l \<in> set (P # ml @ kl). plain_line l"
    using plain_lines [OF assms] by (simp add: P_def ml_def kl_def)
  then have plP: "\<forall>l \<in> set [P]. plain_line l" and plkl: "\<forall>l \<in> set kl. plain_line l"
    and plPml: "\<forall>l \<in> set (P # ml). plain_line l"
    by auto
  have "formatResponse r keys =
      Replace (block [P] @ (nl # Join ml [nl]) @ (nl # Join kl [nl])) [nl, nl] [nl]"
    by (simp add: formatResponse_def formatMessages_def formatKeys_def P_def ml_def kl_def
        block_Cons block_Nil)
  moreover have "nl # Join ml [nl] = (if ml = [] then [nl] else block ml)"
    by (simp add: nl_Join)
  moreover have "nl # Join kl [nl] = (if kl = [] then [nl] else block kl)"
    by (simp add: nl_Join)
  ultimately have asm: "formatResponse r keys =
      Replace (block [P] @ (if ml = [] then [nl] else block ml) @
               (if kl = [] then [nl] else block kl)) [nl, nl] [nl]"
    by (simp only:)
  have "formatResponse r keys = block (P # ml @ kl) @ (if kl = [] then [nl] else [])"
  proof (cases "ml = []")
    case mlN: True
    show ?thesis
    proof (cases "kl = []")
      case True
      with mlN asm have "formatResponse r keys = Replace (block [P] @ [nl, nl]) [nl, nl] [nl]"
        by simp
      also have "\<dots> = block [P] @ Replace [nl, nl] [nl, nl] [nl]"
        by (rule Replace_block [OF plP])
      also have "\<dots> = block [P] @ [nl]"
        by (simp add: Replace_nl_nl Replace_Nil)
      finally show ?thesis using True mlN by simp
    next
      case False
      with mlN asm
      have "formatResponse r keys = Replace (block [P] @ nl # block kl @ []) [nl, nl] [nl]"
        by simp
      also have "\<dots> = block [P] @ Replace (nl # block kl @ []) [nl, nl] [nl]"
        by (rule Replace_block [OF plP])
      also have "\<dots> = block [P] @ block kl @ Replace [] [nl, nl] [nl]"
        by (simp only: Replace_nl_block [OF plkl False])
      finally show ?thesis using False mlN
        by (simp add: Replace_Nil block_Cons block_Nil)
    qed
  next
    case mlC: False
    show ?thesis
    proof (cases "kl = []")
      case True
      with mlC asm have "formatResponse r keys = Replace (block (P # ml) @ [nl]) [nl, nl] [nl]"
        by (simp add: block_Cons block_Nil)
      also have "\<dots> = block (P # ml) @ Replace [nl] [nl, nl] [nl]"
        by (rule Replace_block [OF plPml])
      finally show ?thesis using True by (simp add: Replace_nl_end)
    next
      case False
      with mlC asm
      have "formatResponse r keys = Replace (block (P # ml @ kl) @ []) [nl, nl] [nl]"
        by (simp add: block_Cons block_Nil block_append)
      also have "\<dots> = block (P # ml @ kl) @ Replace [] [nl, nl] [nl]"
        by (rule Replace_block [OF pl])
      finally show ?thesis using False by (simp add: Replace_Nil)
    qed
  qed
  then show ?thesis
    by (simp add: P_def ml_def kl_def)
qed

text \<open>Every message line stands in the block as a line of its own.\<close>

lemma message_line_rendered:
  assumes "plain_response r keys" "m \<in> set (Messages r)"
  shows "sublist (nl # message_line m @ [nl]) (formatResponse r keys)"
proof -
  define P where "P = poolName (Datacenter r) (WAN r) (Segment r) @ '':''"
  define kl where "kl = map (key_line (NumNodes r)) keys"
  from assms(2) obtain xs ys where m: "Messages r = xs @ m # ys"
    by (auto simp: in_set_conv_decomp)
  define rest where "rest = block (map message_line ys @ kl) @ (if keys = [] then [nl] else [])"
  have "formatResponse r keys =
      block (P # map message_line xs) @ (nl # message_line m) @ rest"
    by (simp add: formatResponse_layout [OF assms(1)] m rest_def P_def kl_def
        block_Cons block_append)
  moreover obtain rest' where "rest = nl # rest'"
  proof (cases "map message_line ys @ kl")
    case Nil
    then have "keys = []" by (simp add: kl_def)
    with Nil have "rest = nl # []" by (simp add: rest_def block_Nil)
    then show ?thesis by (rule that)
  next
    case (Cons l ls)
    then have "rest = nl # (l @ block ls @ (if keys = [] then [nl] else []))"
      by (simp add: rest_def block_Cons)
    then show ?thesis by (rule that)
  qed
  ultimately have "formatResponse r keys =
      block (P # map message_line xs) @ (nl # message_line m @ [nl]) @ rest'"
    by simp
  then show ?thesis
    unfolding sublist_def by blast
qed

lemma split_lines_formatResponse:
  assumes "plain_response r keys"
  shows "split_lines (formatResponse r keys) =
     [] # (poolName (Datacenter r) (WAN r) (Segment r) @ '':'') #
     map message_line (Messages r) @ map (key_line (NumNodes r)) keys @
     (if keys = [] then [[]] else [])"
  unfolding formatResponse_layout [OF assms]
  using split_lines_block [OF plain_lines [OF assms], of "[]"]
  by (cases "keys = []") simp_all

text \<open>
  For every response, with or without newlines in its strings: the runs of the assembled
  text, the block without messages, and the last character of the block.
\<close>

lemma Join_hd:
  "ls \<noteq> [] \<Longrightarrow> hd ls \<noteq> [] \<Longrightarrow> Join ls sep \<noteq> [] \<and> hd (Join ls sep) = hd (hd ls)"
  by (induction ls sep rule: Join.induct) auto

lemma Join_last:
  "ls \<noteq> [] \<Longrightarrow> last ls \<noteq> [] \<Longrightarrow> Join ls sep \<noteq> [] \<and> last (Join ls sep) = last (last ls)"
  by (induction ls sep rule: Join.induct) auto

lemma key_line_ends:
  "key_line tot kn \<noteq> [] \<and> hd (key_line tot kn) = CHR '' '' \<and> last (key_line tot kn) = CHR '']''"
  by (cases kn) (simp add: key_line_def)

lemma formatKeys_ends:
  assumes "keys \<noteq> []"
  shows "formatKeys keys tot \<noteq> [] \<and> hd (formatKeys keys tot) = CHR '' '' \<and>
         last (formatKeys keys tot) = CHR '']''"
proof -
  let ?ls = "map (key_line tot) keys"
  from assms have ne: "?ls \<noteq> []" by simp
  have h: "hd ?ls = key_line tot (hd keys)" using assms by (simp add: hd_map)
  have l: "last ?ls = key_line tot (last keys)" using assms by (simp add: last_map)
  from Join_hd [OF ne, of "[nl]"] Join_last [OF ne, of "[nl]"] h l key_line_ends
  show ?thesis by (simp add: formatKeys_def)
qed

lemma assembled:
  "Join [[], p, m, k] [nl] = (nl # p) @ nl # m @ nl # k"
  by simp

lemma formatResponse_runs:
  assumes "Join [[], poolName (Datacenter r) (WAN r) (Segment r) @ '':'',
                 formatMessages (Messages r), formatKeys keys (NumNodes r)] [nl] =
           u @ replicate k nl @ v"
    and "u = [] \<or> last u \<noteq> nl" and "v = [] \<or> hd v \<noteq> nl"
  shows "formatResponse r keys =
           Replace u [nl, nl] [nl] @ replicate ((k + 1) div 2) nl @ Replace v [nl, nl] [nl]"
proof -
  have "formatResponse r keys = Replace (u @ replicate k nl @ v) [nl, nl] [nl]"
    using assms(1) by (simp only: formatResponse_def Let_def)
  also have "\<dots> = Replace u [nl, nl] [nl] @ Replace (replicate k nl @ v) [nl, nl] [nl]"
    by (rule Replace_split [OF assms(2)])
  also have "Replace (replicate k nl @ v) [nl, nl] [nl] =
      replicate ((k + 1) div 2) nl @ Replace v [nl, nl] [nl]"
    by (rule Replace_run [OF assms(3)])
  finally show ?thesis .
qed

lemma formatResponse_no_messages:
  assumes "Messages r = []"
  shows "formatResponse r keys =
     Replace (Join [[], poolName (Datacenter r) (WAN r) (Segment r) @ '':'',
                    formatKeys keys (NumNodes r)] [nl]) [nl, nl] [nl]"
proof -
  define H where "H = nl # poolName (Datacenter r) (WAN r) (Segment r) @ '':''"
  define K where "K = formatKeys keys (NumNodes r)"
  have H: "H = [] \<or> last H \<noteq> nl" by (simp add: H_def nl_def)
  have K: "K = [] \<or> hd K \<noteq> nl"
    using formatKeys_ends [of keys "NumNodes r"]
    by (cases "keys = []") (auto simp: K_def formatKeys_def nl_def)
  have "formatResponse r keys = Replace (H @ replicate 2 nl @ K) [nl, nl] [nl]"
    using assms
    by (simp add: formatResponse_def formatMessages_def H_def K_def numeral_2_eq_2)
  also have "\<dots> = Replace H [nl, nl] [nl] @ replicate ((2 + 1) div 2) nl @ Replace K [nl, nl] [nl]"
    by (simp only: Replace_split [OF H] Replace_run [OF K])
  also have "\<dots> = Replace H [nl, nl] [nl] @ replicate ((1 + 1) div 2) nl @ Replace K [nl, nl] [nl]"
    by simp
  also have "\<dots> = Replace (H @ replicate 1 nl @ K) [nl, nl] [nl]"
    by (simp only: Replace_split [OF H] Replace_run [OF K])
  also have "H @ replicate 1 nl @ K =
      Join [[], poolName (Datacenter r) (WAN r) (Segment r) @ '':'',
            formatKeys keys (NumNodes r)] [nl]"
    by (simp add: H_def K_def)
  finally show ?thesis .
qed

lemma formatResponse_last:
  "(keys = [] \<longrightarrow> formatResponse r keys \<noteq> [] \<and> last (formatResponse r keys) = nl) \<and>
   (keys \<noteq> [] \<longrightarrow> formatResponse r keys \<noteq> [] \<and> last (formatResponse r keys) = CHR '']'')"
proof (cases "keys = []")
  case True
  define X where "X = nl # poolName (Datacenter r) (WAN r) (Segment r) @ '':'' @
                nl # formatMessages (Messages r)"
  have "formatResponse r keys = Replace (X @ [nl]) [nl, nl] [nl]"
    using True by (simp add: formatResponse_def formatKeys_def X_def)
  with Replace_snoc_nl [of X] True show ?thesis by simp
next
  case False
  define A where "A = Join [[], poolName (Datacenter r) (WAN r) (Segment r) @ '':'',
                 formatMessages (Messages r), formatKeys keys (NumNodes r)] [nl]"
  from formatKeys_ends [OF False, of "NumNodes r"]
  have "A \<noteq> [] \<and> last A = CHR '']''" by (simp add: A_def)
  moreover have "CHR '']'' \<noteq> nl" by (simp add: nl_def)
  ultimately have "Replace A [nl, nl] [nl] \<noteq> [] \<and> last (Replace A [nl, nl] [nl]) = CHR '']''"
    using Replace_last [of A] by simp
  with False show ?thesis by (simp add: formatResponse_def A_def)
qed

section \<open>Two enumerations of the same maps\<close>

lemma same_gomap_small:
  assumes "same_gomap m m'" "length m \<le> 1"
  shows "m = m'"
proof (cases m)
  case Nil
  with assms show ?thesis by (simp add: same_gomap_def)
next
  case (Cons x xs)
  with assms have "m = [x]" by simp
  with assms have "mset m' = {#x#}" by (simp add: same_gomap_def)
  then have "m' = [x]" by simp
  with \<open>m = [x]\<close> show ?thesis by simp
qed

lemma format_same_small:
  assumes "same_response r r'" "same_gomap keys keys'"
    and "length (Messages r) \<le> 1" "length keys \<le> 1"
  shows "formatResponse r keys = formatResponse r' keys'"
proof -
  from assms have "Messages r = Messages r'" "keys = keys'"
    by (auto simp: same_response_def intro: same_gomap_small)
  moreover from assms have "WAN r = WAN r'" "Datacenter r = Datacenter r'"
    "Segment r = Segment r'" "NumNodes r = NumNodes r'"
    by (auto simp: same_response_def)
  ultimately show ?thesis
    by (simp add: formatResponse_def)
qed

lemma plain_response_same:
  assumes "same_response r r'" "same_gomap keys keys'" "plain_response r keys"
  shows "plain_response r' keys'"
proof -
  from assms have "set (Messages r') = set (Messages r)" "set keys' = set keys"
    by (auto simp: same_response_def same_gomap_def dest: mset_eq_setD)
  with assms show ?thesis
    by (simp add: plain_response_def list_all_iff same_response_def)
qed

lemma lines_same:
  assumes "same_response r r'" "same_gomap keys keys'" "plain_response r keys"
  shows "mset (split_lines (formatResponse r keys)) =
         mset (split_lines (formatResponse r' keys'))"
proof -
  have p': "plain_response r' keys'"
    using assms by (rule plain_response_same)
  have "mset (map message_line (Messages r)) = mset (map message_line (Messages r'))"
    using assms(1) by (simp add: same_response_def same_gomap_def)
  moreover
  have "mset (map (key_line (NumNodes r)) keys) = mset (map (key_line (NumNodes r')) keys')"
    using assms(1,2) by (simp add: same_response_def same_gomap_def)
  moreover have "keys = [] \<longleftrightarrow> keys' = []"
    using assms(2) by (auto simp: same_gomap_def)
  moreover have "poolName (Datacenter r) (WAN r) (Segment r) =
      poolName (Datacenter r') (WAN r') (Segment r')"
    using assms(1) by (simp add: same_response_def)
  ultimately show ?thesis
    by (simp add: split_lines_formatResponse [OF assms(3)] split_lines_formatResponse [OF p'])
qed

section \<open>The control flow of Run\<close>

lemma Run_dispatch:
  assumes "flags_Parse e args = Inr c"
    and "single_action (listKeys c \<or> listPrimaryKeys c)
           [installKey c, useKey c, removeKey c] = Some True"
    and "0 \<le> relay c" "relay c \<le> 5"
    and "local c \<longrightarrow> listKeys c"
    and "APIClient e = Inr cl"
  shows "Run e args = dispatch e c (relay c) cl"
  using assms
  by (auto simp add: Run_def ParseRelayFactor_def ValidateLocalOnly_def
      simp del: single_action.simps)

lemma Run_no_dispatch:
  assumes "flags_Parse e args = Inr c"
    and "single_action (listKeys c \<or> listPrimaryKeys c)
           [installKey c, useKey c, removeKey c] \<noteq> Some True
         \<or> isl (ParseRelayFactor (relay c))
         \<or> ValidateLocalOnly (local c) (listKeys c) \<noteq> None"
  shows "exit_code (Run e args) = 1 \<and> calls (Run e args) = []"
  using assms
  by (auto simp add: Run_def simp del: single_action.simps split: option.splits sum.splits)

text \<open>
  What the single-action check lets through: a list flag (or both) with no key, or no
  list flag with exactly one key.
\<close>

lemma single_action_passes_iff:
  "single_action (l \<or> p) [i, u, r] = Some True \<longleftrightarrow>
     ((l \<or> p) \<and> i = [] \<and> u = [] \<and> r = []) \<or>
     (\<not> l \<and> \<not> p \<and>
      ((i \<noteq> [] \<and> u = [] \<and> r = []) \<or> (i = [] \<and> u \<noteq> [] \<and> r = []) \<or>
       (i = [] \<and> u = [] \<and> r \<noteq> [])))"
  by auto

lemma single_action_found:
  "single_action found args = Some True \<Longrightarrow> found \<or> (\<exists>a \<in> set args. a \<noteq> [])"
  by (induction found args rule: single_action.induct) (auto split: if_splits)

lemma dispatch_site:
  assumes "listKeys c \<or> listPrimaryKeys c \<or> installKey c \<noteq> [] \<or> useKey c \<noteq> [] \<or>
           removeKey c \<noteq> []"
  shows "site (dispatch e c rf cl) \<in>
     (if listKeys c then {Ret_ListError, Ret_List}
      else if listPrimaryKeys c then {Ret_ListPrimaryError, Ret_ListPrimary}
      else if installKey c \<noteq> [] then {Ret_InstallError, Ret_Install}
      else if useKey c \<noteq> [] then {Ret_UseError, Ret_Use}
      else {Ret_RemoveError, Ret_Remove})"
  using assms by (auto simp: dispatch_def Let_def split: sum.splits option.splits)

lemma Run_site:
  assumes "flags_Parse e args = Inr c"
    and "single_action (listKeys c \<or> listPrimaryKeys c)
           [installKey c, useKey c, removeKey c] = Some True"
  shows "(site (Run e args) \<in> {Ret_RelayFactor, Ret_LocalOnly, Ret_APIClient} \<and>
          exit_code (Run e args) = 1) \<or>
         site (Run e args) \<in>
           (if listKeys c then {Ret_ListError, Ret_List}
            else if listPrimaryKeys c then {Ret_ListPrimaryError, Ret_ListPrimary}
            else if installKey c \<noteq> [] then {Ret_InstallError, Ret_Install}
            else if useKey c \<noteq> [] then {Ret_UseError, Ret_Use}
            else {Ret_RemoveError, Ret_Remove})"
proof -
  from single_action_found [OF assms(2)]
  have f: "listKeys c \<or> listPrimaryKeys c \<or> installKey c \<noteq> [] \<or> useKey c \<noteq> [] \<or>
           removeKey c \<noteq> []"
    by auto
  show ?thesis
  proof (cases "ParseRelayFactor (relay c)")
    case (Inl err)
    with assms show ?thesis by (simp add: Run_def del: single_action.simps)
  next
    case rf: (Inr relayFactor)
    show ?thesis
    proof (cases "ValidateLocalOnly (local c) (listKeys c)")
      case (Some err)
      with assms rf show ?thesis by (simp add: Run_def del: single_action.simps)
    next
      case None
      show ?thesis
      proof (cases "APIClient e")
        case (Inl err)
        with assms rf None show ?thesis by (simp add: Run_def del: single_action.simps)
      next
        case (Inr cl)
        with assms rf None have "Run e args = dispatch e c relayFactor cl"
          by (simp add: Run_def del: single_action.simps)
        with dispatch_site [OF f, of e relayFactor cl] show ?thesis
          by simp
      qed
    qed
  qed
qed

text \<open>
  A read command that passes the checks and whose request returns responses: the exit
  code, what is printed, and where a message of a response stands in its block.
\<close>

lemma Run_read_success:
  assumes "flags_Parse e args = Inr c"
    and "listKeys c \<or> listPrimaryKeys c"
    and "installKey c = [] \<and> useKey c = [] \<and> removeKey c = []"
    and "0 \<le> relay c \<and> relay c \<le> 5"
    and "local c \<longrightarrow> listKeys c"
    and "APIClient e = Inr cl"
    and "KeyringList cl \<lparr>RelayFactor = relay c, LocalOnly = local c\<rparr> = Inr responses"
  shows "exit_code (Run e args) = 0 \<and>
         ui (Run e args) =
           UI_Info (if listKeys c then ''Gathering installed encryption keys...''
                    else ''Gathering installed primary encryption keys...'') #
           map (\<lambda>r. UI_Output (formatResponse r (if listKeys c then Keys r else PrimaryKeys r)))
             responses \<and>
         (\<forall>r \<in> set responses. \<forall>m \<in> set (Messages r).
            plain_response r (if listKeys c then Keys r else PrimaryKeys r) \<longrightarrow>
            sublist (nl # message_line m @ [nl])
              (formatResponse r (if listKeys c then Keys r else PrimaryKeys r)))"
proof -
  have "Run e args = dispatch e c (relay c) cl"
    using assms by (intro Run_dispatch) auto
  then have "exit_code (Run e args) = 0" and
    "ui (Run e args) =
           UI_Info (if listKeys c then ''Gathering installed encryption keys...''
                    else ''Gathering installed primary encryption keys...'') #
           map (\<lambda>r. UI_Output (formatResponse r (if listKeys c then Keys r else PrimaryKeys r)))
             responses"
    using assms(2,7) by (auto simp: dispatch_def)
  then show ?thesis
    by (auto intro: message_line_rendered)
qed

section \<open>The claims\<close>

subsection \<open>C1: a read command whose request succeeds\<close>


subsection \<open>C2: local-only with list-primary\<close>

text \<open>
  Claim C2 says that local-only is accepted with List and with ListPrimary and rejected
  with a mutating command. \<open>Run\<close> hands the validator \<^verbatim>\<open>c.listKeys\<close> alone (line 101),
  so \<open>consul keyring -list-primary -local-only\<close> reaches it as a command that is not a
  list query, exactly as \<open>-install=k1 -local-only\<close> does: both are rejected at line 104
  before a client exists.
\<close>

theorem C2_list_primary_local_only_rejected:
  "Run example_env [''-list-primary'', ''-local-only''] =
     \<lparr>exit_code = 1, ui = [UI_Error ''Error validating local-only: invalid scope''],
      calls = [], site = Ret_LocalOnly\<rparr> \<and>
   Run example_env [''-install=k1'', ''-local-only''] =
     Run example_env [''-list-primary'', ''-local-only'']"
  by code_simp

subsection \<open>C3: more than one command argument\<close>

text \<open>
  Claim C3 says that two or more populated command arguments are a usage error. The
  check of lines 78 to 85 starts from \<^verbatim>\<open>c.listKeys || c.listPrimaryKeys\<close> and only
  then looks at the three keys, so \<open>consul keyring -list -list-primary\<close> passes it: the
  request is sent and \<open>Run\<close> returns 0 from the list branch.
\<close>

theorem C3_list_and_list_primary_dispatched:
  "flags_Parse example_env [''-list'', ''-list-primary''] =
     Inr (no_flags\<lparr>listKeys := True, listPrimaryKeys := True\<rparr>) \<and>
   exit_code (Run example_env [''-list'', ''-list-primary'']) = 0 \<and>
   calls (Run example_env [''-list'', ''-list-primary'']) =
     [Call_APIClient, Call_KeyringList \<lparr>RelayFactor = 0, LocalOnly = False\<rparr>] \<and>
   site (Run example_env [''-list'', ''-list-primary'']) = Ret_List"
  by code_simp

subsection \<open>C4: the relay factor\<close>

text \<open>
  Claim C4. The Relay Policy accepts a relay factor \<open>r\<close>, returning it, if and only if
  \<open>0 \<le> r \<le> 5\<close>; every other integer, negative ones included, gives
  \<open>InvalidRelayFactor\<close>, and an invocation with such a factor ends with exit code 1
  before a client is constructed or a verb is called.
\<close>

theorem C4_relay_factor_policy:
  "(ParseRelayFactor r = Inr r \<longleftrightarrow> 0 \<le> r \<and> r \<le> 5) \<and>
   (ParseRelayFactor r = Inl InvalidRelayFactor \<longleftrightarrow> r < 0 \<or> 5 < r) \<and>
   (flags_Parse e args = Inr c \<and> relay c = r \<and> (r < 0 \<or> 5 < r) \<longrightarrow>
      exit_code (Run e args) = 1 \<and> calls (Run e args) = [])"
proof -
  have "isl (ParseRelayFactor r)" if "r < 0 \<or> 5 < r"
    using that by (auto simp: ParseRelayFactor_def)
  then have "exit_code (Run e args) = 1 \<and> calls (Run e args) = []"
    if "flags_Parse e args = Inr c" "relay c = r" "r < 0 \<or> 5 < r"
    using that Run_no_dispatch [of e args c] by blast
  then show ?thesis
    by (auto simp: ParseRelayFactor_def)
qed

text \<open>The theorem at the factors 3 and 6, the latter in \<open>consul keyring -list -relay-factor=6\<close>.\<close>

theorem C4_relay_factor_policy_witness:
  "ParseRelayFactor 3 = Inr 3 \<and>
   flags_Parse example_env [''-list'', ''-relay-factor=6''] =
     Inr (no_flags\<lparr>listKeys := True, relay := 6\<rparr>) \<and>
   ParseRelayFactor 6 = Inl InvalidRelayFactor \<and>
   exit_code (Run example_env [''-list'', ''-relay-factor=6'']) = 1 \<and>
   calls (Run example_env [''-list'', ''-relay-factor=6'']) = []"
proof -
  have p: "flags_Parse example_env [''-list'', ''-relay-factor=6''] =
     Inr (no_flags\<lparr>listKeys := True, relay := 6\<rparr>)"
    by (simp add: example_env_def example_Parse_def)
  have r: "relay (no_flags\<lparr>listKeys := True, relay := 6\<rparr>) = 6"
    by simp
  show ?thesis
    using C4_relay_factor_policy [of 3]
      C4_relay_factor_policy [of 6 example_env "[''-list'', ''-relay-factor=6'']"
        "no_flags\<lparr>listKeys := True, relay := 6\<rparr>"] p r
    by simp
qed

subsection \<open>C5: validation comes before the client\<close>

text \<open>
  Claim C5. When the single-action check fails, or the relay-factor validation or the
  local-only validation returns an error (whatever the two validators reject: a relay
  factor outside 0 to 5, and local-only on a command that is not the list command, in
  particular on a command with an install, use or remove key), \<open>Run\<close> ends with exit
  code 1 and has made no call on the client side: no client is constructed and no verb is
  invoked.
\<close>

theorem C5_invalid_options_never_dispatch:
  assumes "flags_Parse e args = Inr c"
    and "single_action (listKeys c \<or> listPrimaryKeys c)
           [installKey c, useKey c, removeKey c] \<noteq> Some True
         \<or> isl (ParseRelayFactor (relay c))
         \<or> ValidateLocalOnly (local c) (listKeys c) \<noteq> None
         \<or> relay c < 0 \<or> 5 < relay c
         \<or> (local c \<and> \<not> listKeys c)
         \<or> (local c \<and> (installKey c \<noteq> [] \<or> useKey c \<noteq> [] \<or> removeKey c \<noteq> []))"
  shows "exit_code (Run e args) = 1 \<and> calls (Run e args) = []"
proof (rule Run_no_dispatch [OF assms(1)])
  have "single_action True [installKey c, useKey c, removeKey c] \<noteq> Some True"
    if "installKey c \<noteq> [] \<or> useKey c \<noteq> [] \<or> removeKey c \<noteq> []"
    using that by auto
  with assms(2)
  show "single_action (listKeys c \<or> listPrimaryKeys c)
           [installKey c, useKey c, removeKey c] \<noteq> Some True
         \<or> isl (ParseRelayFactor (relay c))
         \<or> ValidateLocalOnly (local c) (listKeys c) \<noteq> None"
    by (cases "listKeys c")
      (auto simp add: ParseRelayFactor_def ValidateLocalOnly_def simp del: single_action.simps)
qed

text \<open>The theorem at \<open>consul keyring -install=k1 -local-only\<close>.\<close>

theorem C5_invalid_options_never_dispatch_witness:
  "flags_Parse example_env [''-install=k1'', ''-local-only''] =
     Inr (no_flags\<lparr>installKey := ''k1'', local := True\<rparr>) \<and>
   local (no_flags\<lparr>installKey := ''k1'', local := True\<rparr>) \<and>
   \<not> listKeys (no_flags\<lparr>installKey := ''k1'', local := True\<rparr>) \<and>
   exit_code (Run example_env [''-install=k1'', ''-local-only'']) = 1 \<and>
   calls (Run example_env [''-install=k1'', ''-local-only'']) = []"
proof -
  have p: "flags_Parse example_env [''-install=k1'', ''-local-only''] =
     Inr (no_flags\<lparr>installKey := ''k1'', local := True\<rparr>)"
    by (simp add: example_env_def example_Parse_def)
  have l: "local (no_flags\<lparr>installKey := ''k1'', local := True\<rparr>) \<and>
     \<not> listKeys (no_flags\<lparr>installKey := ''k1'', local := True\<rparr>)"
    by (simp add: no_flags_def)
  from p l C5_invalid_options_never_dispatch [OF p] show ?thesis
    by blast
qed

subsection \<open>C6: the request of list-primary\<close>

text \<open>
  Claim C6, as the program has it. A list-primary invocation (list-primary set, list not
  set) that passes the checks calls the same read verb as list, \<^verbatim>\<open>KeyringList\<close>, with
  the query options made of the relay factor and local-only (which is false here, or the
  validation would have failed); the client has no verb of its own for the primary keys.
  When the request succeeds, the key lines of every block are drawn from the
  \<^verbatim>\<open>PrimaryKeys\<close> of the response.
\<close>

theorem C6_list_primary_dispatch:
  assumes "flags_Parse e args = Inr c"
    and "listPrimaryKeys c \<and> \<not> listKeys c"
    and "installKey c = [] \<and> useKey c = [] \<and> removeKey c = []"
    and "0 \<le> relay c \<and> relay c \<le> 5"
    and "\<not> local c"
    and "APIClient e = Inr cl"
  shows "calls (Run e args) =
           [Call_APIClient, Call_KeyringList \<lparr>RelayFactor = relay c, LocalOnly = False\<rparr>] \<and>
         (\<forall>responses.
            KeyringList cl \<lparr>RelayFactor = relay c, LocalOnly = False\<rparr> = Inr responses \<longrightarrow>
            ui (Run e args) =
              UI_Info ''Gathering installed primary encryption keys...'' #
              map (\<lambda>r. UI_Output (formatResponse r (PrimaryKeys r))) responses)"
proof -
  have "Run e args = dispatch e c (relay c) cl"
    using assms by (intro Run_dispatch) auto
  then show ?thesis
    using assms(2,5) by (auto simp: dispatch_def Let_def split: sum.splits)
qed

text \<open>The theorem at \<open>consul keyring -list-primary\<close>.\<close>

theorem C6_list_primary_dispatch_witness:
  "flags_Parse example_env [''-list-primary''] = Inr (no_flags\<lparr>listPrimaryKeys := True\<rparr>) \<and>
   APIClient example_env = Inr example_client \<and>
   KeyringList example_client \<lparr>RelayFactor = 0, LocalOnly = False\<rparr> = Inr [pool_dc1] \<and>
   calls (Run example_env [''-list-primary'']) =
     [Call_APIClient, Call_KeyringList \<lparr>RelayFactor = 0, LocalOnly = False\<rparr>] \<and>
   ui (Run example_env [''-list-primary'']) =
     [UI_Info ''Gathering installed primary encryption keys...'',
      UI_Output (formatResponse pool_dc1 (PrimaryKeys pool_dc1))]"
proof -
  have p: "flags_Parse example_env [''-list-primary''] =
      Inr (no_flags\<lparr>listPrimaryKeys := True\<rparr>)"
    by (simp add: example_env_def example_Parse_def)
  have a: "APIClient example_env = Inr example_client"
    by (simp add: example_env_def)
  have k: "KeyringList example_client \<lparr>RelayFactor = 0, LocalOnly = False\<rparr> = Inr [pool_dc1]"
    by (simp add: example_client_def)
  have "calls (Run example_env [''-list-primary'']) =
     [Call_APIClient,
      Call_KeyringList \<lparr>RelayFactor = relay (no_flags\<lparr>listPrimaryKeys := True\<rparr>),
                        LocalOnly = False\<rparr>] \<and>
     (\<forall>responses.
        KeyringList example_client
          \<lparr>RelayFactor = relay (no_flags\<lparr>listPrimaryKeys := True\<rparr>), LocalOnly = False\<rparr> =
          Inr responses \<longrightarrow>
        ui (Run example_env [''-list-primary'']) =
          UI_Info ''Gathering installed primary encryption keys...'' #
          map (\<lambda>r. UI_Output (formatResponse r (PrimaryKeys r))) responses)"
    by (rule C6_list_primary_dispatch [OF p _ _ _ _ a]) (simp_all add: no_flags_def)
  with p a k show ?thesis
    by (simp add: no_flags_def)
qed

text \<open>
  Claim C6 as stated has the dispatcher invoke a ListPrimary verb of the client.
  \<open>consul keyring -list-primary\<close> makes the call \<^verbatim>\<open>KeyringList\<close>, the very call that
  \<open>consul keyring -list\<close> makes.
\<close>

theorem C6_counterexample:
  "calls (Run example_env [''-list-primary'']) =
     [Call_APIClient, Call_KeyringList \<lparr>RelayFactor = 0, LocalOnly = False\<rparr>] \<and>
   calls (Run example_env [''-list-primary'']) = calls (Run example_env [''-list''])"
  by code_simp

subsection \<open>C7: rendering the same result twice\<close>

text \<open>
  Claim C7, as the program has it. The formatter visits the messages and the keys of a
  pool with \<^verbatim>\<open>range\<close> and sorts nothing, so its text follows the order in which the two
  maps happen to be enumerated. Two renderings of the same sequence of responses are
  byte-identical when every map is enumerated in the same order both times, which is
  certain when no map has more than one entry; and when the strings hold no newline, two
  renderings of a pool always consist of the same lines, possibly in another order.
\<close>

theorem C7_rendering_up_to_order:
  assumes "list_all2 same_response rs rs'" and "sel = Keys \<or> sel = PrimaryKeys"
  shows "((\<forall>r \<in> set rs. length (Messages r) \<le> 1 \<and> length (sel r) \<le> 1) \<longrightarrow>
            map (\<lambda>r. formatResponse r (sel r)) rs = map (\<lambda>r. formatResponse r (sel r)) rs') \<and>
         ((\<forall>r \<in> set rs. plain_response r (sel r)) \<longrightarrow>
            list_all2 (\<lambda>s s'. mset (split_lines s) = mset (split_lines s'))
              (map (\<lambda>r. formatResponse r (sel r)) rs)
              (map (\<lambda>r. formatResponse r (sel r)) rs'))"
  using assms(1)
proof (induction rs rs' rule: list_all2_induct)
  case Nil
  then show ?case by simp
next
  case (Cons r rs r' rs')
  from Cons(1) assms(2) have k: "same_gomap (sel r) (sel r')"
    by (auto simp: same_response_def)
  from Cons(1) k have "formatResponse r (sel r) = formatResponse r' (sel r')"
    if "length (Messages r) \<le> 1" "length (sel r) \<le> 1"
    using that by (rule format_same_small)
  moreover from Cons(1) k
  have "mset (split_lines (formatResponse r (sel r))) =
        mset (split_lines (formatResponse r' (sel r')))"
    if "plain_response r (sel r)"
    using that by (rule lines_same)
  ultimately show ?case
    using Cons.IH by simp
qed

text \<open>
  The theorem at the one-message pool \<open>pool_dc1\<close>, and at the pool with two messages
  enumerated as \<open>pool_ab\<close> and as \<open>pool_ba\<close>.
\<close>

theorem C7_rendering_up_to_order_witness:
  "list_all2 same_response [pool_dc1, pool_ab] [pool_dc1, pool_ba] \<and>
   list_all2 same_response [pool_dc1] [pool_dc1] \<and>
   length (Messages pool_dc1) \<le> 1 \<and> length (Keys pool_dc1) \<le> 1 \<and>
   plain_response pool_dc1 (Keys pool_dc1) \<and> plain_response pool_ab (Keys pool_ab) \<and>
   map (\<lambda>r. formatResponse r (Keys r)) [pool_dc1] =
     map (\<lambda>r. formatResponse r (Keys r)) [pool_dc1] \<and>
   list_all2 (\<lambda>s s'. mset (split_lines s) = mset (split_lines s'))
     (map (\<lambda>r. formatResponse r (Keys r)) [pool_dc1, pool_ab])
     (map (\<lambda>r. formatResponse r (Keys r)) [pool_dc1, pool_ba])"
proof -
  have a: "list_all2 same_response [pool_dc1, pool_ab] [pool_dc1, pool_ba]"
    by code_simp
  have a': "list_all2 same_response [pool_dc1] [pool_dc1]"
    by code_simp
  have b: "length (Messages pool_dc1) \<le> 1 \<and> length (Keys pool_dc1) \<le> 1"
    by (simp add: pool_dc1_def)
  have c: "plain_response pool_dc1 (Keys pool_dc1) \<and> plain_response pool_ab (Keys pool_ab)"
    by code_simp
  from b have b': "\<forall>r \<in> set [pool_dc1]. length (Messages r) \<le> 1 \<and> length (Keys r) \<le> 1"
    by simp
  from c have c': "\<forall>r \<in> set [pool_dc1, pool_ab]. plain_response r (Keys r)"
    by simp
  from a a' b c b' c' C7_rendering_up_to_order [OF a, of Keys]
    C7_rendering_up_to_order [OF a', of Keys]
  show ?thesis
    by blast
qed

text \<open>
  Claim C7 as stated makes two renderings of the same result byte-identical. The pool
  with the messages of \<open>node1\<close> and \<open>node2\<close> is the same map in \<open>pool_ab\<close> and in
  \<open>pool_ba\<close>, enumerated in the two orders a \<^verbatim>\<open>range\<close> loop may take, and the two texts
  differ.
\<close>

theorem C7_counterexample:
  "same_response pool_ab pool_ba \<and>
   formatResponse pool_ab (Keys pool_ab) =
     ''\<newline>WAN:\<newline>  ===> node1: a\<newline>  ===> node2: b\<newline>'' \<and>
   formatResponse pool_ba (Keys pool_ba) =
     ''\<newline>WAN:\<newline>  ===> node2: b\<newline>  ===> node1: a\<newline>'' \<and>
   formatResponse pool_ab (Keys pool_ab) \<noteq> formatResponse pool_ba (Keys pool_ba)"
  by code_simp

subsection \<open>C8: the layout of a block\<close>

text \<open>
  Claim C8, as the program has it. For a response whose strings hold no newline, the
  block is made of lines each preceded by a newline: the header \<open><site> (LAN)\<close> for a
  local pool or \<open>WAN\<close> for the wide-area pool, followed by \<open> [<segment>]\<close> when the
  segment is not empty and closed by a colon; then one line \<open>  ===> from: message\<close> per
  message; then one line \<open>  <key> [<count>/<total>]\<close> per key. A block without keys ends
  with a newline.
\<close>

theorem C8_formatResponse_block:
  assumes "plain_response r keys"
  shows "formatResponse r keys =
     block (((if WAN r then ''WAN'' else Datacenter r @ '' (LAN)'') @
             (if Segment r \<noteq> [] then '' ['' @ Segment r @ '']'' else []) @ '':'') #
            map (\<lambda>(from, msg). ''  ===> '' @ from @ '': '' @ msg) (Messages r) @
            map (\<lambda>(key, num). ''  '' @ key @ '' ['' @ fmt_d num @ ''/'' @
                   fmt_d (NumNodes r) @ '']'') keys) @
     (if keys = [] then [nl] else [])"
proof -
  have "poolName (Datacenter r) (WAN r) (Segment r) @ '':'' =
      (if WAN r then ''WAN'' else Datacenter r @ '' (LAN)'') @
      (if Segment r \<noteq> [] then '' ['' @ Segment r @ '']'' else []) @ '':''"
    by (simp add: poolName_def)
  moreover have "message_line = (\<lambda>(from, msg). ''  ===> '' @ from @ '': '' @ msg)"
    by (simp add: message_line_def)
  moreover have "key_line (NumNodes r) =
      (\<lambda>(key, num). ''  '' @ key @ '' ['' @ fmt_d num @ ''/'' @ fmt_d (NumNodes r) @ '']'')"
    by (simp add: key_line_def)
  ultimately show ?thesis
    using formatResponse_layout [OF assms] by (simp only:)
qed

text \<open>The theorem at the pool \<open>pool_dc1\<close> with its keys.\<close>

theorem C8_formatResponse_block_witness:
  "plain_response pool_dc1 (Keys pool_dc1) \<and>
   formatResponse pool_dc1 (Keys pool_dc1) =
     block [''dc1 (LAN):'', ''  ===> node1: cannot remove primary key'', ''  abc123 [3/3]'']"
proof -
  have h: "plain_response pool_dc1 (Keys pool_dc1)"
    by code_simp
  have d: "fmt_d 3 = ''3''"
    by code_simp
  from h C8_formatResponse_block [OF h] show ?thesis
    by (simp add: pool_dc1_def d)
qed

text \<open>
  Claim C8 as stated gives the header as \<open><site> (LAN)\<close> and a message line as
  \<open>from: message\<close>. The block of \<open>pool_dc1\<close> has the header \<open>dc1 (LAN):\<close> and the
  message line \<open>  ===> node1: cannot remove primary key\<close>; the text laid out in the
  words of the claim does not occur in it.
\<close>

theorem C8_counterexample:
  "split_lines (formatResponse pool_dc1 (Keys pool_dc1)) =
     [[], ''dc1 (LAN):'', ''  ===> node1: cannot remove primary key'', ''  abc123 [3/3]''] \<and>
   split_lines (spec_block pool_dc1 (Keys pool_dc1)) =
     [''dc1 (LAN)'', ''  node1: cannot remove primary key'', ''  abc123 [3/3]''] \<and>
   \<not> sublist (spec_block pool_dc1 (Keys pool_dc1)) (formatResponse pool_dc1 (Keys pool_dc1))"
  by code_simp

subsection \<open>C9: blank lines\<close>

text \<open>
  Claim C9, as the program has it. For every response, the block is the assembled text
  (an empty first line, the header, the message section and the key section, joined by
  newlines) after one pass from left to right that shortens every maximal run of \<open>k\<close>
  newlines to \<open>(k + 1) div 2\<close>, rounding up, and leaves the text around the run to be
  treated on its own. So the blank line of an empty section (a run of two) disappears,
  two or three consecutive blank lines (a run of three or four) become a single one, and
  a run of five or more keeps at least two consecutive blank lines. A block without
  messages is the block assembled without the message section. A block without keys ends
  with a newline, that is with an empty last line, and a block with keys ends with the
  bracket of its last key line. When no string holds a newline the lines of the block
  are an empty first line, the header, the message lines and the key lines, plus the
  empty last line when there is no key, and no two newlines are adjacent.
\<close>

theorem C9_blank_lines:
  "(Join [[], poolName (Datacenter r) (WAN r) (Segment r) @ '':'',
          formatMessages (Messages r), formatKeys keys (NumNodes r)] [nl] =
      u @ replicate k nl @ v \<and>
    (u = [] \<or> last u \<noteq> nl) \<and> (v = [] \<or> hd v \<noteq> nl) \<longrightarrow>
      formatResponse r keys =
        Replace u [nl, nl] [nl] @ replicate ((k + 1) div 2) nl @ Replace v [nl, nl] [nl] \<and>
      (u \<noteq> [] \<longrightarrow> Replace u [nl, nl] [nl] \<noteq> [] \<and> last (Replace u [nl, nl] [nl]) \<noteq> nl) \<and>
      (v \<noteq> [] \<longrightarrow> Replace v [nl, nl] [nl] \<noteq> [] \<and> hd (Replace v [nl, nl] [nl]) \<noteq> nl) \<and>
      (k = 1 \<or> k = 2 \<longrightarrow>
         formatResponse r keys =
           Replace u [nl, nl] [nl] @ [nl] @ Replace v [nl, nl] [nl]) \<and>
      (k = 3 \<or> k = 4 \<longrightarrow>
         formatResponse r keys =
           Replace u [nl, nl] [nl] @ [nl, nl] @ Replace v [nl, nl] [nl]) \<and>
      (5 \<le> k \<longrightarrow> sublist [nl, nl, nl] (formatResponse r keys))) \<and>
   (Messages r = [] \<longrightarrow>
      formatResponse r keys =
        Replace (Join [[], poolName (Datacenter r) (WAN r) (Segment r) @ '':'',
                       formatKeys keys (NumNodes r)] [nl]) [nl, nl] [nl]) \<and>
   (keys = [] \<longrightarrow> formatResponse r keys \<noteq> [] \<and> last (formatResponse r keys) = nl) \<and>
   (keys \<noteq> [] \<longrightarrow> formatResponse r keys \<noteq> [] \<and> last (formatResponse r keys) = CHR '']'') \<and>
   (plain_response r keys \<longrightarrow>
      split_lines (formatResponse r keys) =
        [] # (poolName (Datacenter r) (WAN r) (Segment r) @ '':'') #
        map message_line (Messages r) @ map (key_line (NumNodes r)) keys @
        (if keys = [] then [[]] else []) \<and>
      \<not> sublist [nl, nl] (formatResponse r keys))"
proof -
  have runs: "formatResponse r keys =
        Replace u [nl, nl] [nl] @ replicate ((k + 1) div 2) nl @ Replace v [nl, nl] [nl] \<and>
      (u \<noteq> [] \<longrightarrow> Replace u [nl, nl] [nl] \<noteq> [] \<and> last (Replace u [nl, nl] [nl]) \<noteq> nl) \<and>
      (v \<noteq> [] \<longrightarrow> Replace v [nl, nl] [nl] \<noteq> [] \<and> hd (Replace v [nl, nl] [nl]) \<noteq> nl) \<and>
      (k = 1 \<or> k = 2 \<longrightarrow>
         formatResponse r keys =
           Replace u [nl, nl] [nl] @ [nl] @ Replace v [nl, nl] [nl]) \<and>
      (k = 3 \<or> k = 4 \<longrightarrow>
         formatResponse r keys =
           Replace u [nl, nl] [nl] @ [nl, nl] @ Replace v [nl, nl] [nl]) \<and>
      (5 \<le> k \<longrightarrow> sublist [nl, nl, nl] (formatResponse r keys))"
    if a: "Join [[], poolName (Datacenter r) (WAN r) (Segment r) @ '':'',
          formatMessages (Messages r), formatKeys keys (NumNodes r)] [nl] =
      u @ replicate k nl @ v"
      and u: "u = [] \<or> last u \<noteq> nl" and v: "v = [] \<or> hd v \<noteq> nl"
  proof -
    have f: "formatResponse r keys =
        Replace u [nl, nl] [nl] @ replicate ((k + 1) div 2) nl @ Replace v [nl, nl] [nl]"
      using a u v by (rule formatResponse_runs)
    have "sublist [nl, nl, nl] (formatResponse r keys)" if "5 \<le> k"
    proof -
      from that have "3 \<le> (k + 1) div 2" by arith
      then obtain m where "(k + 1) div 2 = 3 + m"
        by (auto simp: nat_le_iff_add)
      then have "replicate ((k + 1) div 2) nl = [nl, nl, nl] @ replicate m nl"
        by (simp add: numeral_3_eq_3)
      with f have "formatResponse r keys =
          Replace u [nl, nl] [nl] @ [nl, nl, nl] @
          (replicate m nl @ Replace v [nl, nl] [nl])"
        by simp
      then show ?thesis unfolding sublist_def by blast
    qed
    moreover have "formatResponse r keys =
        Replace u [nl, nl] [nl] @ [nl] @ Replace v [nl, nl] [nl]" if "k = 1 \<or> k = 2"
    proof -
      from that have "(k + 1) div 2 = Suc 0" by arith
      with f show ?thesis by simp
    qed
    moreover have "formatResponse r keys =
        Replace u [nl, nl] [nl] @ [nl, nl] @ Replace v [nl, nl] [nl]" if "k = 3 \<or> k = 4"
    proof -
      from that have "(k + 1) div 2 = Suc (Suc 0)" by arith
      with f show ?thesis by simp
    qed
    ultimately show ?thesis
      using f u v Replace_last [of u] Replace_hd [of v] by auto
  qed
  have plain: "split_lines (formatResponse r keys) =
        [] # (poolName (Datacenter r) (WAN r) (Segment r) @ '':'') #
        map message_line (Messages r) @ map (key_line (NumNodes r)) keys @
        (if keys = [] then [[]] else []) \<and>
      \<not> sublist [nl, nl] (formatResponse r keys)"
    if p: "plain_response r keys"
  proof -
    have "\<not> blank_line (formatResponse r keys)"
      unfolding formatResponse_layout [OF p]
      by (rule no_blank_line_block [OF plain_lines [OF p]]) simp
    with split_lines_formatResponse [OF p] show ?thesis
      by (simp add: blank_line_sublist)
  qed
  from runs plain formatResponse_no_messages [of r keys] formatResponse_last [of keys r]
  show ?thesis
    by blast
qed

text \<open>
  The theorem at the pool \<open>pool_gap\<close>, whose message holds a run of five newlines and
  which has no key, and at the pool \<open>pool_dc1\<close> without messages and with its keys.
\<close>

theorem C9_blank_lines_witness:
  "Join [[], poolName (Datacenter pool_gap) (WAN pool_gap) (Segment pool_gap) @ '':'',
         formatMessages (Messages pool_gap), formatKeys [] (NumNodes pool_gap)] [nl] =
     ''\<newline>dc1 (LAN):\<newline>  ===> node1: a'' @ replicate 5 nl @ ''b\<newline>'' \<and>
   formatResponse pool_gap [] =
     ''\<newline>dc1 (LAN):\<newline>  ===> node1: a'' @ replicate 3 nl @ ''b\<newline>'' \<and>
   sublist [nl, nl, nl] (formatResponse pool_gap []) \<and>
   last (formatResponse pool_gap []) = nl \<and>
   Messages (pool_dc1\<lparr>Messages := []\<rparr>) = [] \<and>
   formatResponse (pool_dc1\<lparr>Messages := []\<rparr>) (Keys pool_dc1) =
     Replace (Join [[], ''dc1 (LAN):'', ''  abc123 [3/3]''] [nl]) [nl, nl] [nl] \<and>
   last (formatResponse (pool_dc1\<lparr>Messages := []\<rparr>) (Keys pool_dc1)) = CHR '']'' \<and>
   plain_response (pool_dc1\<lparr>Messages := []\<rparr>) (Keys pool_dc1) \<and>
   split_lines (formatResponse (pool_dc1\<lparr>Messages := []\<rparr>) (Keys pool_dc1)) =
     [[], ''dc1 (LAN):'', ''  abc123 [3/3]'']"
proof -
  let ?u = "''\<newline>dc1 (LAN):\<newline>  ===> node1: a''" and ?v = "''b\<newline>''"
  let ?r = "pool_dc1\<lparr>Messages := []\<rparr>"
  have a: "Join [[], poolName (Datacenter pool_gap) (WAN pool_gap) (Segment pool_gap) @ '':'',
         formatMessages (Messages pool_gap), formatKeys [] (NumNodes pool_gap)] [nl] =
     ?u @ replicate 5 nl @ ?v"
    by code_simp
  have ends: "(?u = [] \<or> last ?u \<noteq> nl) \<and> (?v = [] \<or> hd ?v \<noteq> nl)"
    by (simp add: nl_def)
  have k: "5 \<le> (5::nat)" "((5::nat) + 1) div 2 = 3"
    by simp_all
  have ev: "Replace ?u [nl, nl] [nl] = ?u" "Replace ?v [nl, nl] [nl] = ?v"
    by code_simp+
  have m: "Messages ?r = []" "Keys pool_dc1 \<noteq> []"
    by (simp_all add: pool_dc1_def)
  have p: "plain_response ?r (Keys pool_dc1)"
    by code_simp
  have names: "poolName (Datacenter ?r) (WAN ?r) (Segment ?r) @ '':'' = ''dc1 (LAN):''"
    "formatKeys (Keys pool_dc1) (NumNodes ?r) = ''  abc123 [3/3]''"
    "map message_line (Messages ?r) = []"
    "map (key_line (NumNodes ?r)) (Keys pool_dc1) = [''  abc123 [3/3]'']"
    by code_simp+
  from C9_blank_lines [of pool_gap "[]" ?u 5 ?v] a ends k(1)
  have g: "formatResponse pool_gap [] =
      Replace ?u [nl, nl] [nl] @ replicate ((5 + 1) div 2) nl @ Replace ?v [nl, nl] [nl] \<and>
      sublist [nl, nl, nl] (formatResponse pool_gap []) \<and>
      last (formatResponse pool_gap []) = nl"
    by blast
  have kf: "(Keys pool_dc1 = []) = False"
    using m(2) by simp
  from C9_blank_lines [of ?r "Keys pool_dc1"] m(1)
  have d1: "formatResponse ?r (Keys pool_dc1) =
        Replace (Join [[], poolName (Datacenter ?r) (WAN ?r) (Segment ?r) @ '':'',
                       formatKeys (Keys pool_dc1) (NumNodes ?r)] [nl]) [nl, nl] [nl]"
    by blast
  from C9_blank_lines [of ?r "Keys pool_dc1"] m(2)
  have d2: "last (formatResponse ?r (Keys pool_dc1)) = CHR '']''"
    by blast
  from C9_blank_lines [of ?r "Keys pool_dc1"] p
  have d3: "split_lines (formatResponse ?r (Keys pool_dc1)) =
        [] # (poolName (Datacenter ?r) (WAN ?r) (Segment ?r) @ '':'') #
        map message_line (Messages ?r) @ map (key_line (NumNodes ?r)) (Keys pool_dc1) @
        (if Keys pool_dc1 = [] then [[]] else [])"
    by blast
  note g' = g [unfolded ev k(2)]
  note d1' = d1 [unfolded names]
  note d3' = d3 [unfolded names kf if_False append_Nil append_Nil2 append_Cons]
  from a g' d1' d2 d3' m(1) p show ?thesis
    by blast
qed

text \<open>
  Claim C9 as stated lets no blank line appear for an empty key section and makes any run
  of blank lines collapse to a single one. The block of \<open>pool_dc1\<close> rendered without
  keys keeps an empty last line, and of the five consecutive newlines in the message of
  \<open>pool_gap\<close> the pass leaves three, that is two consecutive blank lines.
\<close>

theorem C9_counterexample:
  "split_lines (formatResponse pool_dc1 []) =
     [[], ''dc1 (LAN):'', ''  ===> node1: cannot remove primary key'', []] \<and>
   split_lines (formatResponse pool_gap (Keys pool_gap)) =
     [[], ''dc1 (LAN):'', ''  ===> node1: a'', [], [], ''b'', []] \<and>
   sublist [nl, nl, nl] (formatResponse pool_gap (Keys pool_gap))"
  by code_simp

subsection \<open>C10: the return at the end of Run\<close>

text \<open>
  Claim C10, as the program has it. No invocation leaves \<open>Run\<close> through the return of
  line 172. An invocation that passes flag parsing and the single-action check either
  returns 1 from the relay-factor validation, from the local-only validation or from the
  construction of the client, or returns from exactly one of the five branches: the
  first, in the order list, list-primary, install, use, remove, whose argument is
  populated.
\<close>

theorem C10_fall_through_unreachable:
  "site (Run e args) \<noteq> Ret_FallThrough \<and>
   (flags_Parse e args = Inr c \<and>
    single_action (listKeys c \<or> listPrimaryKeys c)
      [installKey c, useKey c, removeKey c] = Some True \<longrightarrow>
      (site (Run e args) \<in> {Ret_RelayFactor, Ret_LocalOnly, Ret_APIClient} \<and>
       exit_code (Run e args) = 1) \<or>
      site (Run e args) \<in>
        (if listKeys c then {Ret_ListError, Ret_List}
         else if listPrimaryKeys c then {Ret_ListPrimaryError, Ret_ListPrimary}
         else if installKey c \<noteq> [] then {Ret_InstallError, Ret_Install}
         else if useKey c \<noteq> [] then {Ret_UseError, Ret_Use}
         else {Ret_RemoveError, Ret_Remove}))"
proof -
  have "site (Run e args) \<noteq> Ret_FallThrough"
  proof (cases "flags_Parse e args")
    case (Inl err)
    then show ?thesis by (simp add: Run_def)
  next
    case (Inr c')
    show ?thesis
    proof (cases "single_action (listKeys c' \<or> listPrimaryKeys c')
                    [installKey c', useKey c', removeKey c'] = Some True")
      case True
      from Run_site [OF Inr True] show ?thesis
        by (auto split: if_splits)
    next
      case False
      with Inr show ?thesis
        by (auto simp add: Run_def simp del: single_action.simps split: option.splits)
    qed
  qed
  with Run_site [of e args c] show ?thesis
    by blast
qed

text \<open>The theorem at \<open>consul keyring -list-primary\<close>, which returns from the second branch.\<close>

theorem C10_fall_through_unreachable_witness:
  "flags_Parse example_env [''-list-primary''] = Inr (no_flags\<lparr>listPrimaryKeys := True\<rparr>) \<and>
   single_action (listKeys (no_flags\<lparr>listPrimaryKeys := True\<rparr>) \<or>
                  listPrimaryKeys (no_flags\<lparr>listPrimaryKeys := True\<rparr>))
     [installKey (no_flags\<lparr>listPrimaryKeys := True\<rparr>),
      useKey (no_flags\<lparr>listPrimaryKeys := True\<rparr>),
      removeKey (no_flags\<lparr>listPrimaryKeys := True\<rparr>)] = Some True \<and>
   site (Run example_env [''-list-primary'']) \<noteq> Ret_FallThrough \<and>
   ((site (Run example_env [''-list-primary'']) \<in> {Ret_RelayFactor, Ret_LocalOnly, Ret_APIClient} \<and>
     exit_code (Run example_env [''-list-primary'']) = 1) \<or>
    site (Run example_env [''-list-primary'']) \<in> {Ret_ListPrimaryError, Ret_ListPrimary})"
proof -
  have p: "flags_Parse example_env [''-list-primary''] =
      Inr (no_flags\<lparr>listPrimaryKeys := True\<rparr>)"
    by (simp add: example_env_def example_Parse_def)
  have s: "single_action (listKeys (no_flags\<lparr>listPrimaryKeys := True\<rparr>) \<or>
                  listPrimaryKeys (no_flags\<lparr>listPrimaryKeys := True\<rparr>))
     [installKey (no_flags\<lparr>listPrimaryKeys := True\<rparr>),
      useKey (no_flags\<lparr>listPrimaryKeys := True\<rparr>),
      removeKey (no_flags\<lparr>listPrimaryKeys := True\<rparr>)] = Some True"
    by (simp add: no_flags_def)
  have f: "\<not> listKeys (no_flags\<lparr>listPrimaryKeys := True\<rparr>)"
    "listPrimaryKeys (no_flags\<lparr>listPrimaryKeys := True\<rparr>)"
    by (simp_all add: no_flags_def)
  from C10_fall_through_unreachable
    [of example_env "[''-list-primary'']" "no_flags\<lparr>listPrimaryKeys := True\<rparr>"] p s f
  show ?thesis
    by (simp del: single_action.simps)
qed

text \<open>
  Claim C10 as stated has one of the five branches execute in every invocation that passes
  flag parsing and the single-action check. \<open>consul keyring -list -relay-factor=6\<close>
  passes both and returns at line 97, before any branch.
\<close>

theorem C10_counterexample:
  "flags_Parse example_env [''-list'', ''-relay-factor=6''] =
     Inr (no_flags\<lparr>listKeys := True, relay := 6\<rparr>) \<and>
   single_action (listKeys (no_flags\<lparr>listKeys := True, relay := 6\<rparr>) \<or>
                  listPrimaryKeys (no_flags\<lparr>listKeys := True, relay := 6\<rparr>))
     [installKey (no_flags\<lparr>listKeys := True, relay := 6\<rparr>),
      useKey (no_flags\<lparr>listKeys := True, relay := 6\<rparr>),
      removeKey (no_flags\<lparr>listKeys := True, relay := 6\<rparr>)] = Some True \<and>
   site (Run example_env [''-list'', ''-relay-factor=6'']) = Ret_RelayFactor \<and>
   calls (Run example_env [''-list'', ''-relay-factor=6'']) = []"
  by code_simp

end
